theory Spec2Isabelle
  imports Main "HOL-Library.Sublist"
begin

section \<open>The reconciliation loop of the cluster autoscaler\<close>

text \<open>
  The development embeds the body of the \<^verbatim>\<open>for { select { ... } }\<close> loop of \<^verbatim>\<open>main\<close>
  (package \<^verbatim>\<open>main\<close> of the cluster autoscaler). One pass through the loop body is a
  \<^emph>\<open>tick\<close>. The tick reads the cluster through listers, calls the planners
  \<^verbatim>\<open>ScaleUp\<close>, \<^verbatim>\<open>FindUnneededNodes\<close> and \<^verbatim>\<open>ScaleDown\<close>, and keeps five variables from one
  tick to the next.

  The planners, the listers and the helper functions are not defined in the file that
  holds \<^verbatim>\<open>main\<close>; the loop only calls them. They are taken as parameters: the record
  \<open>env\<close> below holds, for one tick, what each of them returns when the loop calls it.
  The handles that never change after start-up (\<^verbatim>\<open>cloudProvider\<close>, \<^verbatim>\<open>kubeClient\<close>,
  \<^verbatim>\<open>predicateChecker\<close>, \<^verbatim>\<open>recorder\<close>) and the utilization threshold, a \<^verbatim>\<open>float64\<close> that
  the loop only hands on to \<^verbatim>\<open>FindUnneededNodes\<close>, are part of those parameters.
\<close>

subsection \<open>Time, errors and configuration\<close>

text \<open>
  A \<^verbatim>\<open>time.Time\<close> is an instant and a \<^verbatim>\<open>time.Duration\<close> a signed number of nanoseconds.
  Both are integers here, in one unit, an instant being its distance from a fixed origin.
  \<^verbatim>\<open>t.Add(d)\<close> is \<open>t + d\<close> and \<^verbatim>\<open>t.After(u)\<close> is \<open>u < t\<close>. A duration is an \<^verbatim>\<open>int64\<close>
  (at most about 292 years) and \<^verbatim>\<open>Add\<close> works on a count of seconds held in an
  \<^verbatim>\<open>int64\<close>, so \<^verbatim>\<open>Add\<close> on an instant read from the clock does not wrap.
\<close>

type_synonym time = int
type_synonym duration = int

text \<open>
  The unary minus of Go on a duration is the negation of an \<^verbatim>\<open>int64\<close>: it wraps at the
  smallest value, which is its own negation.
\<close>

definition negDuration :: "duration \<Rightarrow> duration" where
  "negDuration d = (if d = - 9223372036854775808 then d else - d)"

datatype error = Err string

text \<open>
  Modelled from the spec: the declaration of \<^verbatim>\<open>ScaleDownResult\<close> is not in the file of
  \<^verbatim>\<open>main\<close>, which names only \<^verbatim>\<open>ScaleDownError\<close> and \<^verbatim>\<open>ScaleDownNoNodeDeleted\<close>. The
  specification lists three outcomes of the action pass: Success, NoNodeDeleted and
  Error. \<open>ScaleDownNodeDeleted\<close> stands for Success.
\<close>

datatype ScaleDownResult = ScaleDownError | ScaleDownNoNodeDeleted | ScaleDownNodeDeleted

text \<open>The command-line flags that the loop reads.\<close>

record config =
  verifyUnschedulablePods :: bool
  scaleDownEnabled :: bool
  scaleDownDelay :: duration
  scaleDownUnneededTime :: duration
  scaleDownTrialInterval :: duration

subsection \<open>State kept across ticks\<close>

text \<open>
  The five variables declared before the loop. The usage tracker is a pointer to a
  structure of another package; its content is a value of the type parameter \<open>'u\<close>.
\<close>

record 'u state =
  lastScaleUpTime :: time
  lastScaleDownFailedTrial :: time
  unneededNodes :: "string \<rightharpoonup> time"
  podLocationHints :: "string \<rightharpoonup> string"
  usageTracker :: 'u

text \<open>
  At start-up both timers are set by two successive calls of \<^verbatim>\<open>time.Now()\<close>, the maps
  are empty and the tracker is the one \<^verbatim>\<open>NewUsageTracker\<close> returns.
\<close>

definition initState :: "time \<Rightarrow> time \<Rightarrow> 'u \<Rightarrow> 'u state" where
  "initState t1 t2 u =
     \<lparr>lastScaleUpTime = t1, lastScaleDownFailedTrial = t2,
      unneededNodes = Map.empty, podLocationHints = Map.empty, usageTracker = u\<rparr>"

subsection \<open>The environment of one tick\<close>

text \<open>
  The loop body calls \<^verbatim>\<open>time.Now()\<close> at six places whose value reaches the state or a
  decision (the other calls feed metrics only). Each place has its own reading.
\<close>

datatype callsite =
  AtScaleUp | AtDelayCheck | AtTrialCheck | AtCleanUp | AtFindUnneeded | AtFailedTrial

record ('n, 'p, 'u) env =
  now :: "callsite \<Rightarrow> time"
  nodeLister_List :: "error + 'n list"
  CheckGroupsAndNodes :: "'n list \<Rightarrow> error option"
  unschedulablePodLister_List :: "error + 'p list"
  scheduledPodLister_List :: "error + 'p list"
  GetAllNodesAvailableTime :: "'n list \<Rightarrow> time"
  SlicePodsByPodScheduledTime :: "'p list \<Rightarrow> time \<Rightarrow> 'p list \<times> 'p list"
  FilterOutSchedulable :: "'p list \<Rightarrow> 'n list \<Rightarrow> 'p list \<Rightarrow> 'p list"
  ScaleUp :: "'p list \<Rightarrow> 'n list \<Rightarrow> bool \<times> error option"
  CleanUp :: "time \<Rightarrow> 'u \<Rightarrow> 'u"
  FindUnneededNodes ::
    "'n list \<Rightarrow> (string \<rightharpoonup> time) \<Rightarrow> 'p list \<Rightarrow> (string \<rightharpoonup> string) \<Rightarrow> 'u \<Rightarrow> time
      \<Rightarrow> (string \<rightharpoonup> time) \<times> (string \<rightharpoonup> string) \<times> 'u"
  ScaleDown ::
    "'n list \<Rightarrow> (string \<rightharpoonup> time) \<Rightarrow> duration \<Rightarrow> 'p list \<Rightarrow> (string \<rightharpoonup> string) \<Rightarrow> 'u
      \<Rightarrow> (ScaleDownResult \<times> error option) \<times> (string \<rightharpoonup> time) \<times> (string \<rightharpoonup> string) \<times> 'u"

text \<open>The readings of one tick, in the order of the places in the loop body.\<close>

definition tickReadings :: "('n, 'p, 'u) env \<Rightarrow> time list" where
  "tickReadings e =
     map (now e) [AtScaleUp, AtDelayCheck, AtTrialCheck, AtCleanUp, AtFindUnneeded, AtFailedTrial]"

subsection \<open>What a tick does to the outside\<close>

text \<open>
  A tick returns the new state and the list of what it did, in order: the calls that can
  change the cluster, the provider or the tracker, what the two planners returned, and the
  messages of the loop that tell its branches apart. The provider is reached only from
  inside \<^verbatim>\<open>ScaleUp\<close> (resize) and \<^verbatim>\<open>ScaleDown\<close> (node deletion). The metrics
  (\<^verbatim>\<open>updateLastTime\<close>, \<^verbatim>\<open>updateDuration\<close>) and the messages of verbosity 4 are left out:
  they change neither the state nor the branch taken.
\<close>

datatype event =
    LogFailedToListNodes
  | LogNoNodes
  | WarnClusterNotReady
  | LogFailedToListUnscheduled
  | LogFailedToListScheduled
  | CallResetPodScheduledCondition
  | CallFilterOutSchedulable
  | LogSchedulablePodsPresent
  | LogNoUnschedulablePods
  | CallScaleUp
  | RetScaleUp bool "error option"
  | LogFailedToScaleUp
  | CallCleanUp
  | CallFindUnneededNodes
  | CallScaleDown
  | RetScaleDown ScaleDownResult "error option"
  | LogFailedToScaleDown

subsection \<open>The loop body\<close>

text \<open>
  Listing and reset (from \<^verbatim>\<open>nodeLister.List()\<close> to \<^verbatim>\<open>ResetPodScheduledCondition\<close>). Each
  \<^verbatim>\<open>continue\<close> of the source ends the tick: the result is \<open>None\<close>. Otherwise the result
  holds the nodes, the scheduled pods and the unschedulable pods to help.
\<close>

definition listPhase ::
  "('n, 'p, 'u) env \<Rightarrow> event list \<times> ('n list \<times> 'p list \<times> 'p list) option" where
  "listPhase e =
     (case nodeLister_List e of
        Inl err \<Rightarrow> ([LogFailedToListNodes], None)
      | Inr nodes \<Rightarrow>
          if length nodes = 0 then ([LogNoNodes], None)
          else
            (case CheckGroupsAndNodes e nodes of
               Some err \<Rightarrow> ([WarnClusterNotReady], None)
             | None \<Rightarrow>
                 (case unschedulablePodLister_List e of
                    Inl err \<Rightarrow> ([LogFailedToListUnscheduled], None)
                  | Inr allUnschedulablePods \<Rightarrow>
                      (case scheduledPodLister_List e of
                         Inl err \<Rightarrow> ([LogFailedToListScheduled], None)
                       | Inr allScheduled \<Rightarrow>
                           let allNodesAvailableTime = GetAllNodesAvailableTime e nodes;
                               (podsToReset, unschedulablePodsToHelp) =
                                 SlicePodsByPodScheduledTime e allUnschedulablePods
                                   allNodesAvailableTime
                           in ([CallResetPodScheduledCondition],
                               Some (nodes, allScheduled, unschedulablePodsToHelp))))))"

text \<open>
  The check of the pods marked unschedulable. The result is the events, the flag
  \<^verbatim>\<open>schedulablePodsPresent\<close> and the pods that still need help.
\<close>

definition verifyPhase ::
  "config \<Rightarrow> ('n, 'p, 'u) env \<Rightarrow> 'n list \<Rightarrow> 'p list \<Rightarrow> 'p list
    \<Rightarrow> event list \<times> bool \<times> 'p list" where
  "verifyPhase c e nodes allScheduled unschedulablePodsToHelp =
     (if verifyUnschedulablePods c then
        let newUnschedulablePodsToHelp =
              FilterOutSchedulable e unschedulablePodsToHelp nodes allScheduled
        in if length newUnschedulablePodsToHelp \<noteq> length unschedulablePodsToHelp
           then ([CallFilterOutSchedulable, LogSchedulablePodsPresent], True,
                 newUnschedulablePodsToHelp)
           else ([CallFilterOutSchedulable], False, newUnschedulablePodsToHelp)
      else ([], False, unschedulablePodsToHelp))"

text \<open>
  Scale-up. The third component tells whether the tick goes on to the scale-down part
  (\<open>True\<close>) or ends with \<^verbatim>\<open>continue\<close> (\<open>False\<close>).
\<close>

definition scaleUpPhase ::
  "('n, 'p, 'u) env \<Rightarrow> 'n list \<Rightarrow> 'p list \<Rightarrow> 'u state \<Rightarrow> event list \<times> 'u state \<times> bool" where
  "scaleUpPhase e nodes unschedulablePodsToHelp s =
     (if length unschedulablePodsToHelp = 0 then ([LogNoUnschedulablePods], s, True)
      else
        let (scaledUp, err) = ScaleUp e unschedulablePodsToHelp nodes
        in (case err of
              Some x \<Rightarrow> ([CallScaleUp, RetScaleUp scaledUp err, LogFailedToScaleUp], s, False)
            | None \<Rightarrow>
                if scaledUp
                then ([CallScaleUp, RetScaleUp scaledUp err],
                      s\<lparr>lastScaleUpTime := now e AtScaleUp\<rparr>, False)
                else ([CallScaleUp, RetScaleUp scaledUp err], s, True)))"

text \<open>
  Scale-down: the calculation of the unneeded nodes, then the guarded call of \<^verbatim>\<open>ScaleDown\<close>.
  \<^verbatim>\<open>FindUnneededNodes\<close> returns the two maps, which the loop stores. The tracker is shared
  with \<^verbatim>\<open>CleanUp\<close>, \<^verbatim>\<open>FindUnneededNodes\<close> and \<^verbatim>\<open>ScaleDown\<close>, and a Go map is a reference, so
  \<^verbatim>\<open>ScaleDown\<close> shares the two maps as well: each of these calls returns what it leaves
  behind in what it shares.
\<close>

definition calculateUnneededOnly ::
  "config \<Rightarrow> ('n, 'p, 'u) env \<Rightarrow> bool \<Rightarrow> 'u state \<Rightarrow> bool" where
  "calculateUnneededOnly c e schedulablePodsPresent s =
     (now e AtDelayCheck < lastScaleUpTime s + scaleDownDelay c \<or>
      now e AtTrialCheck < lastScaleDownFailedTrial s + scaleDownTrialInterval c \<or>
      schedulablePodsPresent)"

definition scaleDownPhase ::
  "config \<Rightarrow> ('n, 'p, 'u) env \<Rightarrow> 'n list \<Rightarrow> 'p list \<Rightarrow> bool \<Rightarrow> 'u state
    \<Rightarrow> event list \<times> 'u state" where
  "scaleDownPhase c e nodes allScheduled schedulablePodsPresent s =
     (if scaleDownEnabled c then
        let unneededOnly = calculateUnneededOnly c e schedulablePodsPresent s;
            tracker1 = CleanUp e (now e AtCleanUp + negDuration (scaleDownUnneededTime c))
                         (usageTracker s);
            (unneeded, hints, tracker2) =
              FindUnneededNodes e nodes (unneededNodes s) allScheduled (podLocationHints s)
                tracker1 (now e AtFindUnneeded);
            s1 = s\<lparr>unneededNodes := unneeded, podLocationHints := hints,
                   usageTracker := tracker2\<rparr>
        in if \<not> unneededOnly then
             let ((result, err), unneeded2, hints2, tracker3) =
                   ScaleDown e nodes unneeded (scaleDownUnneededTime c) allScheduled hints tracker2;
                 s2 = s1\<lparr>unneededNodes := unneeded2, podLocationHints := hints2,
                        usageTracker := tracker3\<rparr>
             in (case err of
                   Some x \<Rightarrow>
                     ([CallCleanUp, CallFindUnneededNodes, CallScaleDown,
                       RetScaleDown result err, LogFailedToScaleDown], s2)
                 | None \<Rightarrow>
                     if result = ScaleDownError \<or> result = ScaleDownNoNodeDeleted
                     then ([CallCleanUp, CallFindUnneededNodes, CallScaleDown,
                            RetScaleDown result err],
                           s2\<lparr>lastScaleDownFailedTrial := now e AtFailedTrial\<rparr>)
                     else ([CallCleanUp, CallFindUnneededNodes, CallScaleDown,
                            RetScaleDown result err], s2))
           else ([CallCleanUp, CallFindUnneededNodes], s1)
      else ([], s))"

text \<open>One tick: the new state and the events.\<close>

definition tick ::
  "config \<Rightarrow> ('n, 'p, 'u) env \<Rightarrow> 'u state \<Rightarrow> 'u state \<times> event list" where
  "tick c e s =
     (case listPhase e of
        (evs0, None) \<Rightarrow> (s, evs0)
      | (evs0, Some (nodes, allScheduled, podsToHelp0)) \<Rightarrow>
          let (evs1, schedulablePodsPresent, podsToHelp) =
                verifyPhase c e nodes allScheduled podsToHelp0;
              (evs2, s1, goOn) = scaleUpPhase e nodes podsToHelp s
          in if goOn then
               let (evs3, s2) = scaleDownPhase c e nodes allScheduled schedulablePodsPresent s1
               in (s2, evs0 @ evs1 @ evs2 @ evs3)
             else (s1, evs0 @ evs1 @ evs2))"

subsection \<open>The loop\<close>

text \<open>
  The loop runs one tick after the other, each in its own environment. \<open>stateAfter c es s k\<close>
  is the state after the first \<open>k\<close> ticks, \<open>traceAt c es s k\<close> the events of tick \<open>k\<close>
  (the first tick is tick \<open>0\<close>).
\<close>

definition stateAfter ::
  "config \<Rightarrow> ('n, 'p, 'u) env list \<Rightarrow> 'u state \<Rightarrow> nat \<Rightarrow> 'u state" where
  "stateAfter c es s k = foldl (\<lambda>s' e. fst (tick c e s')) s (take k es)"

definition traceAt ::
  "config \<Rightarrow> ('n, 'p, 'u) env list \<Rightarrow> 'u state \<Rightarrow> nat \<Rightarrow> event list" where
  "traceAt c es s k = snd (tick c (es ! k) (stateAfter c es s k))"

text \<open>
  The clock does not go backwards: the two readings of start-up and the readings of all
  ticks, in order, never decrease.
\<close>

definition clockReadings :: "('n, 'p, 'u) env list \<Rightarrow> time list" where
  "clockReadings es = concat (map tickReadings es)"

definition clockMonotone :: "time \<Rightarrow> time \<Rightarrow> ('n, 'p, 'u) env list \<Rightarrow> bool" where
  "clockMonotone t1 t2 es = sorted (t1 # t2 # clockReadings es)"

subsection \<open>A small cluster\<close>

text \<open>
  Concrete inputs on which the loop body is run below. Instants and durations count
  seconds here: the delay after a scale-up is 600, the interval between trials 60. The
  cluster has the nodes 1 and 2 and the scheduled pods 10 and 11. Pod 7 fits an existing
  node, so the filter drops it; pod 8 fits none. In \<open>exampleEnv\<close> no pod is pending;
  the other environments change one answer each. In \<open>checkFailsEnv\<close> the group check
  rejects every list that holds node 2; in the others it accepts every list.
\<close>

definition exampleConfig :: config where
  "exampleConfig =
     \<lparr>verifyUnschedulablePods = True, scaleDownEnabled = True, scaleDownDelay = 600,
      scaleDownUnneededTime = 600, scaleDownTrialInterval = 60\<rparr>"

definition exampleEnv :: "time \<Rightarrow> (nat, nat, unit) env" where
  "exampleEnv t =
     \<lparr>now = (\<lambda>site. t),
      nodeLister_List = Inr [1, 2],
      CheckGroupsAndNodes = (\<lambda>nodes. None),
      unschedulablePodLister_List = Inr [],
      scheduledPodLister_List = Inr [10, 11],
      GetAllNodesAvailableTime = (\<lambda>nodes. 0),
      SlicePodsByPodScheduledTime = (\<lambda>pods t'. ([], pods)),
      FilterOutSchedulable = (\<lambda>pods nodes scheduled. filter (\<lambda>p. p \<noteq> 7) pods),
      ScaleUp = (\<lambda>pods nodes. (True, None)),
      CleanUp = (\<lambda>cutoff u. u),
      FindUnneededNodes = (\<lambda>nodes unneeded scheduled hints u t'. (unneeded, hints, u)),
      ScaleDown = (\<lambda>nodes unneeded d scheduled hints u.
        ((ScaleDownNodeDeleted, None), unneeded, hints, u))\<rparr>"

definition pendingEnv :: "time \<Rightarrow> (nat, nat, unit) env" where
  "pendingEnv t = (exampleEnv t)\<lparr>unschedulablePodLister_List := Inr [8]\<rparr>"

definition recheckEnv :: "time \<Rightarrow> (nat, nat, unit) env" where
  "recheckEnv t = (exampleEnv t)\<lparr>unschedulablePodLister_List := Inr [7]\<rparr>"

definition noFitEnv :: "time \<Rightarrow> (nat, nat, unit) env" where
  "noFitEnv t = (pendingEnv t)\<lparr>ScaleUp := (\<lambda>pods nodes. (False, None))\<rparr>"

definition listFailEnv :: "time \<Rightarrow> (nat, nat, unit) env" where
  "listFailEnv t = (pendingEnv t)\<lparr>nodeLister_List := Inl (Err ''timeout'')\<rparr>"

definition deleteFailsEnv :: "time \<Rightarrow> (nat, nat, unit) env" where
  "deleteFailsEnv t =
     (exampleEnv t)\<lparr>ScaleDown := (\<lambda>nodes unneeded d scheduled hints u.
        ((ScaleDownError, Some (Err ''delete failed'')), unneeded, hints, u))\<rparr>"

definition checkFailsEnv :: "time \<Rightarrow> (nat, nat, unit) env" where
  "checkFailsEnv t =
     (pendingEnv t)\<lparr>CheckGroupsAndNodes := (\<lambda>nodes.
        if 2 \<in> set nodes then Some (Err ''node 2 is in no node group'') else None)\<rparr>"

definition startState :: "unit state" where
  "startState = initState 0 0 ()"

definition coolDownRun :: "(nat, nat, unit) env list" where
  "coolDownRun = [pendingEnv 1000, exampleEnv 1300]"

definition longRun :: "(nat, nat, unit) env list" where
  "longRun = [pendingEnv 1000, exampleEnv 1700, pendingEnv 2000]"

section \<open>The shape of a tick\<close>

text \<open>
  Each part of the loop body has few outcomes. The lemmas of this section list them, so
  that a property of a tick is proved by going through the outcomes.
\<close>

lemma listPhase_cases:
  "(\<exists>ev. listPhase e = ([ev], None) \<and>
      ev \<in> {LogFailedToListNodes, LogNoNodes, WarnClusterNotReady,
             LogFailedToListUnscheduled, LogFailedToListScheduled}) \<or>
   (\<exists>nodes allScheduled pods0.
      listPhase e = ([CallResetPodScheduledCondition], Some (nodes, allScheduled, pods0)))"
  unfolding listPhase_def
  by (simp add: Let_def split: sum.split option.split prod.split)

lemma verifyPhase_eq:
  "verifyPhase c e nodes allScheduled pods0 =
     (if verifyUnschedulablePods c
      then CallFilterOutSchedulable #
             (if length (FilterOutSchedulable e pods0 nodes allScheduled) \<noteq> length pods0
              then [LogSchedulablePodsPresent] else [])
      else [],
      verifyUnschedulablePods c \<and>
        length (FilterOutSchedulable e pods0 nodes allScheduled) \<noteq> length pods0,
      if verifyUnschedulablePods c then FilterOutSchedulable e pods0 nodes allScheduled
      else pods0)"
  unfolding verifyPhase_def by (simp add: Let_def)

lemma scaleUpPhase_cases:
  "(pods = [] \<and> scaleUpPhase e nodes pods s = ([LogNoUnschedulablePods], s, True)) \<or>
   (pods \<noteq> [] \<and> (\<exists>b x. ScaleUp e pods nodes = (b, Some x) \<and>
      scaleUpPhase e nodes pods s =
        ([CallScaleUp, RetScaleUp b (Some x), LogFailedToScaleUp], s, False))) \<or>
   (pods \<noteq> [] \<and> ScaleUp e pods nodes = (True, None) \<and>
      scaleUpPhase e nodes pods s =
        ([CallScaleUp, RetScaleUp True None], s\<lparr>lastScaleUpTime := now e AtScaleUp\<rparr>, False)) \<or>
   (pods \<noteq> [] \<and> ScaleUp e pods nodes = (False, None) \<and>
      scaleUpPhase e nodes pods s = ([CallScaleUp, RetScaleUp False None], s, True))"
  unfolding scaleUpPhase_def
  by (cases "ScaleUp e pods nodes") (auto split: option.split)

lemma scaleDownPhase_cases:
  obtains
    (disabled) "\<not> scaleDownEnabled c"
      "scaleDownPhase c e nodes allScheduled present s = ([], s)"
  | (dry) unneeded hints tracker2 where
      "scaleDownEnabled c" "calculateUnneededOnly c e present s"
      "scaleDownPhase c e nodes allScheduled present s =
         ([CallCleanUp, CallFindUnneededNodes],
          s\<lparr>unneededNodes := unneeded, podLocationHints := hints, usageTracker := tracker2\<rparr>)"
  | (act) unneeded hints tracker2 result err unneeded2 hints2 tracker3 where
      "scaleDownEnabled c" "\<not> calculateUnneededOnly c e present s"
      "ScaleDown e nodes unneeded (scaleDownUnneededTime c) allScheduled hints tracker2 =
         ((result, err), unneeded2, hints2, tracker3)"
      "scaleDownPhase c e nodes allScheduled present s =
         ([CallCleanUp, CallFindUnneededNodes, CallScaleDown, RetScaleDown result err] @
            (if err = None then [] else [LogFailedToScaleDown]),
          s\<lparr>unneededNodes := unneeded2, podLocationHints := hints2, usageTracker := tracker3,
            lastScaleDownFailedTrial :=
              if err = None \<and> (result = ScaleDownError \<or> result = ScaleDownNoNodeDeleted)
              then now e AtFailedTrial else lastScaleDownFailedTrial s\<rparr>)"
proof (cases "scaleDownEnabled c")
  case False
  then have "scaleDownPhase c e nodes allScheduled present s = ([], s)"
    by (simp add: scaleDownPhase_def)
  with False show ?thesis by (rule disabled)
next
  case en: True
  obtain unneeded hints tracker2 where
    fu: "FindUnneededNodes e nodes (unneededNodes s) allScheduled (podLocationHints s)
          (CleanUp e (now e AtCleanUp + negDuration (scaleDownUnneededTime c)) (usageTracker s))
          (now e AtFindUnneeded) = (unneeded, hints, tracker2)"
    by (metis prod_cases3)
  show ?thesis
  proof (cases "calculateUnneededOnly c e present s")
    case True
    with en fu have "scaleDownPhase c e nodes allScheduled present s =
         ([CallCleanUp, CallFindUnneededNodes],
          s\<lparr>unneededNodes := unneeded, podLocationHints := hints, usageTracker := tracker2\<rparr>)"
      by (simp add: scaleDownPhase_def Let_def)
    with en True show ?thesis by (rule dry)
  next
    case False
    obtain result err unneeded2 hints2 tracker3 where
      sd: "ScaleDown e nodes unneeded (scaleDownUnneededTime c) allScheduled hints tracker2 =
         ((result, err), unneeded2, hints2, tracker3)"
      by (metis surj_pair)
    from en False fu sd have "scaleDownPhase c e nodes allScheduled present s =
         ([CallCleanUp, CallFindUnneededNodes, CallScaleDown, RetScaleDown result err] @
            (if err = None then [] else [LogFailedToScaleDown]),
          s\<lparr>unneededNodes := unneeded2, podLocationHints := hints2, usageTracker := tracker3,
            lastScaleDownFailedTrial :=
              if err = None \<and> (result = ScaleDownError \<or> result = ScaleDownNoNodeDeleted)
              then now e AtFailedTrial else lastScaleDownFailedTrial s\<rparr>)"
      by (cases err) (simp_all add: scaleDownPhase_def Let_def)
    with en False sd show ?thesis by (rule act)
  qed
qed

lemma tick_cases:
  obtains
    (abort) ev where
      "ev \<in> {LogFailedToListNodes, LogNoNodes, WarnClusterNotReady,
             LogFailedToListUnscheduled, LogFailedToListScheduled}"
      "listPhase e = ([ev], None)" "tick c e s = (s, [ev])"
  | (stop) nodes allScheduled pods0 evs1 present pods evs2 s1 where
      "listPhase e = ([CallResetPodScheduledCondition], Some (nodes, allScheduled, pods0))"
      "verifyPhase c e nodes allScheduled pods0 = (evs1, present, pods)"
      "scaleUpPhase e nodes pods s = (evs2, s1, False)"
      "tick c e s = (s1, CallResetPodScheduledCondition # evs1 @ evs2)"
  | (down) nodes allScheduled pods0 evs1 present pods evs2 evs3 s2 where
      "listPhase e = ([CallResetPodScheduledCondition], Some (nodes, allScheduled, pods0))"
      "verifyPhase c e nodes allScheduled pods0 = (evs1, present, pods)"
      "scaleUpPhase e nodes pods s = (evs2, s, True)"
      "scaleDownPhase c e nodes allScheduled present s = (evs3, s2)"
      "tick c e s = (s2, CallResetPodScheduledCondition # evs1 @ evs2 @ evs3)"
proof -
  from listPhase_cases [of e] show ?thesis
  proof (elim disjE exE conjE)
    fix ev assume l: "listPhase e = ([ev], None)"
      and m: "ev \<in> {LogFailedToListNodes, LogNoNodes, WarnClusterNotReady,
             LogFailedToListUnscheduled, LogFailedToListScheduled}"
    from l have "tick c e s = (s, [ev])" by (simp add: tick_def)
    with m l show ?thesis by (rule abort)
  next
    fix nodes allScheduled pods0
    assume l: "listPhase e = ([CallResetPodScheduledCondition], Some (nodes, allScheduled, pods0))"
    obtain evs1 present pods where
      v: "verifyPhase c e nodes allScheduled pods0 = (evs1, present, pods)"
      by (metis prod_cases3)
    obtain evs2 s1 goOn where u: "scaleUpPhase e nodes pods s = (evs2, s1, goOn)"
      by (metis prod_cases3)
    show ?thesis
    proof (cases goOn)
      case False
      with l v u have "tick c e s = (s1, CallResetPodScheduledCondition # evs1 @ evs2)"
        by (simp add: tick_def)
      with l v u False show ?thesis by (auto intro: stop)
    next
      case True
      with u scaleUpPhase_cases [of pods e nodes s] have s1: "s1 = s" by auto
      obtain evs3 s2 where d: "scaleDownPhase c e nodes allScheduled present s = (evs3, s2)"
        by (cases "scaleDownPhase c e nodes allScheduled present s")
      from l v u True s1 d
      have "tick c e s = (s2, CallResetPodScheduledCondition # evs1 @ evs2 @ evs3)"
        by (simp add: tick_def)
      with l v u True s1 d show ?thesis by (auto intro: down)
    qed
  qed
qed

lemma verifyPhase_events:
  assumes "verifyPhase c e nodes allScheduled pods0 = (evs1, present, pods)"
  shows "set evs1 \<subseteq> {CallFilterOutSchedulable, LogSchedulablePodsPresent}"
    and "LogSchedulablePodsPresent \<in> set evs1 \<longleftrightarrow> present"
    and "CallFilterOutSchedulable \<in> set evs1 \<longleftrightarrow> verifyUnschedulablePods c"
  using assms unfolding verifyPhase_eq by (auto split: if_splits)

lemma scaleUpPhase_events:
  assumes "scaleUpPhase e nodes pods s = (evs2, s1, goOn)"
  shows "set evs2 \<subseteq> {LogNoUnschedulablePods, CallScaleUp, LogFailedToScaleUp,
            RetScaleUp (fst (ScaleUp e pods nodes)) (snd (ScaleUp e pods nodes))}"
  using assms scaleUpPhase_cases [of pods e nodes s] by auto

lemma scaleDownPhase_events:
  assumes "scaleDownPhase c e nodes allScheduled present s = (evs3, s2)"
  shows "(CallFindUnneededNodes \<in> set evs3 \<longleftrightarrow> scaleDownEnabled c) \<and>
    (CallScaleDown \<in> set evs3 \<longleftrightarrow>
           scaleDownEnabled c \<and> \<not> calculateUnneededOnly c e present s) \<and>
    LogSchedulablePodsPresent \<notin> set evs3 \<and> CallScaleUp \<notin> set evs3 \<and>
    RetScaleUp b x \<notin> set evs3 \<and> CallFilterOutSchedulable \<notin> set evs3"
proof (cases rule: scaleDownPhase_cases [of c e nodes allScheduled present s])
  case disabled
  with assms show ?thesis by simp
next
  case (dry unneeded hints tracker2)
  with assms show ?thesis by auto
next
  case (act unneeded hints tracker2 result err unneeded2 hints2 tracker3)
  with assms show ?thesis by (cases err) auto
qed

lemma tick_scale_down_iff:
  "CallScaleDown \<in> set (snd (tick c e s)) \<longleftrightarrow>
     CallFindUnneededNodes \<in> set (snd (tick c e s)) \<and>
     scaleDownDelay c \<le> now e AtDelayCheck - lastScaleUpTime s \<and>
     scaleDownTrialInterval c \<le> now e AtTrialCheck - lastScaleDownFailedTrial s \<and>
     LogSchedulablePodsPresent \<notin> set (snd (tick c e s))"
proof (cases rule: tick_cases [of e c s])
  case (abort ev)
  then show ?thesis by auto
next
  case (stop nodes allScheduled pods0 evs1 present pods evs2 s1)
  from verifyPhase_events(1) [OF stop(2)] scaleUpPhase_events [OF stop(3)] stop(4)
  show ?thesis by auto
next
  case (down nodes allScheduled pods0 evs1 present pods evs2 evs3 s2)
  from verifyPhase_events [OF down(2)] scaleUpPhase_events [OF down(3)]
    scaleDownPhase_events [OF down(4)] down(5)
  show ?thesis by (auto simp: calculateUnneededOnly_def)
qed

lemma stateAfter_0: "stateAfter c es s 0 = s"
  by (simp add: stateAfter_def)

lemma stateAfter_Suc:
  "k < length es \<Longrightarrow> stateAfter c es s (Suc k) = fst (tick c (es ! k) (stateAfter c es s k))"
  by (simp add: stateAfter_def take_Suc_conv_app_nth)

lemma tick_lastScaleUpTime:
  "(lastScaleUpTime (fst (tick c e s)) = lastScaleUpTime s \<and>
      RetScaleUp True None \<notin> set (snd (tick c e s))) \<or>
   (lastScaleUpTime (fst (tick c e s)) = now e AtScaleUp \<and>
      RetScaleUp True None \<in> set (snd (tick c e s)))"
proof (cases rule: tick_cases [of e c s])
  case (abort ev)
  then show ?thesis by auto
next
  case (stop nodes allScheduled pods0 evs1 present pods evs2 s1)
  from verifyPhase_events(1) [OF stop(2)] scaleUpPhase_cases [of pods e nodes s] stop(3,4)
  show ?thesis by auto
next
  case (down nodes allScheduled pods0 evs1 present pods evs2 evs3 s2)
  have "lastScaleUpTime s2 = lastScaleUpTime s"
    using down(4) by (cases rule: scaleDownPhase_cases [of c e nodes allScheduled present s]) auto
  with verifyPhase_events(1) [OF down(2)] scaleUpPhase_cases [of pods e nodes s] down(3)
    scaleDownPhase_events [OF down(4), of True None] down(5)
  show ?thesis by auto
qed

lemma tick_lastScaleDownFailedTrial:
  "lastScaleDownFailedTrial (fst (tick c e s)) = lastScaleDownFailedTrial s \<or>
   lastScaleDownFailedTrial (fst (tick c e s)) = now e AtFailedTrial"
proof (cases rule: tick_cases [of e c s])
  case (abort ev)
  then show ?thesis by auto
next
  case (stop nodes allScheduled pods0 evs1 present pods evs2 s1)
  from scaleUpPhase_cases [of pods e nodes s] stop(3,4)
  show ?thesis by auto
next
  case (down nodes allScheduled pods0 evs1 present pods evs2 evs3 s2)
  have "lastScaleDownFailedTrial s2 = lastScaleDownFailedTrial s \<or>
        lastScaleDownFailedTrial s2 = now e AtFailedTrial"
    using down(4) by (cases rule: scaleDownPhase_cases [of c e nodes allScheduled present s]) auto
  with down(5) show ?thesis by auto
qed

lemma clockReadings_append: "clockReadings (xs @ ys) = clockReadings xs @ clockReadings ys"
  by (simp add: clockReadings_def)

lemma clockReadings_Cons: "clockReadings (e # es) = tickReadings e @ clockReadings es"
  by (simp add: clockReadings_def)

lemma clockReadings_drop:
  assumes "k < length es"
  shows "clockReadings (drop k es) = tickReadings (es ! k) @ clockReadings (drop (Suc k) es)"
  using assms by (simp add: Cons_nth_drop_Suc [symmetric] clockReadings_Cons)

lemma sorted_clockReadings_drop:
  assumes "sorted (clockReadings es)"
  shows "sorted (clockReadings (drop k es))"
proof -
  have "clockReadings es = clockReadings (take k es) @ clockReadings (drop k es)"
    by (simp add: clockReadings_append [symmetric])
  with assms show ?thesis by (simp add: sorted_append)
qed

text \<open>A timer that a tick either keeps or sets to one of its own readings.\<close>

lemma timer_step:
  fixes f :: "'u state \<Rightarrow> time" and es :: "('n, 'p, 'u) env list"
  assumes step: "\<And>(e :: ('n, 'p, 'u) env) s. f (fst (tick c e s)) = f s \<or> f (fst (tick c e s)) \<in> set (tickReadings e)"
    and srt: "sorted (clockReadings es)"
    and k: "k < length es"
    and le: "\<forall>r \<in> set (clockReadings (drop k es)). f (stateAfter c es s k) \<le> r"
  shows "f (stateAfter c es s k) \<le> f (stateAfter c es s (Suc k)) \<and>
         (\<forall>r \<in> set (clockReadings (drop (Suc k) es)). f (stateAfter c es s (Suc k)) \<le> r)"
proof -
  let ?s = "stateAfter c es s k"
  have eq: "stateAfter c es s (Suc k) = fst (tick c (es ! k) ?s)"
    using k by (rule stateAfter_Suc)
  have dr: "clockReadings (drop k es) = tickReadings (es ! k) @ clockReadings (drop (Suc k) es)"
    using k by (rule clockReadings_drop)
  have s2: "sorted (tickReadings (es ! k) @ clockReadings (drop (Suc k) es))"
    using sorted_clockReadings_drop [OF srt, of k] dr by simp
  from step [of "es ! k" ?s] show ?thesis
  proof
    assume "f (fst (tick c (es ! k) ?s)) = f ?s"
    with eq le dr show ?thesis by simp
  next
    assume m: "f (fst (tick c (es ! k) ?s)) \<in> set (tickReadings (es ! k))"
    with le dr have "f ?s \<le> f (fst (tick c (es ! k) ?s))" by simp
    moreover from m s2 have
      "\<forall>r \<in> set (clockReadings (drop (Suc k) es)). f (fst (tick c (es ! k) ?s)) \<le> r"
      by (simp add: sorted_append)
    ultimately show ?thesis using eq by simp
  qed
qed

lemma timer_invariant:
  fixes f :: "'u state \<Rightarrow> time" and es :: "('n, 'p, 'u) env list"
  assumes step: "\<And>(e :: ('n, 'p, 'u) env) s. f (fst (tick c e s)) = f s \<or> f (fst (tick c e s)) \<in> set (tickReadings e)"
    and srt: "sorted (clockReadings es)"
    and le: "\<forall>r \<in> set (clockReadings es). f s \<le> r"
    and k: "k \<le> length es"
  shows "f s \<le> f (stateAfter c es s k) \<and>
         (\<forall>r \<in> set (clockReadings (drop k es)). f (stateAfter c es s k) \<le> r)"
  using k
proof (induction k)
  case 0
  with le show ?case by (simp add: stateAfter_0)
next
  case (Suc k)
  then have k: "k < length es" and ih: "f s \<le> f (stateAfter c es s k)"
    and ih2: "\<forall>r \<in> set (clockReadings (drop k es)). f (stateAfter c es s k) \<le> r"
    by simp_all
  from timer_step [of f c es k s, OF step srt k ih2] ih show ?case by simp
qed

lemma timer_mono:
  fixes f :: "'u state \<Rightarrow> time" and es :: "('n, 'p, 'u) env list"
  assumes step: "\<And>(e :: ('n, 'p, 'u) env) s. f (fst (tick c e s)) = f s \<or> f (fst (tick c e s)) \<in> set (tickReadings e)"
    and srt: "sorted (clockReadings es)"
    and le: "\<forall>r \<in> set (clockReadings es). f s \<le> r"
    and ij: "i \<le> j" and j: "j \<le> length es"
  shows "f (stateAfter c es s i) \<le> f (stateAfter c es s j)"
  using ij j
proof (induction j)
  case 0
  then show ?case by simp
next
  case (Suc j)
  show ?case
  proof (cases "i = Suc j")
    case True
    then show ?thesis by simp
  next
    case False
    with Suc have ij: "i \<le> j" and j: "j < length es" by simp_all
    with Suc have ih: "f (stateAfter c es s i) \<le> f (stateAfter c es s j)" by simp
    from timer_invariant [of f c es s j, OF step srt le] j
    have "\<forall>r \<in> set (clockReadings (drop j es)). f (stateAfter c es s j) \<le> r" by simp
    from timer_step [of f c es j s, OF step srt j this] ih show ?thesis by simp
  qed
qed

lemma lastScaleUpTime_step:
  "lastScaleUpTime (fst (tick c e s)) = lastScaleUpTime s \<or>
   lastScaleUpTime (fst (tick c e s)) \<in> set (tickReadings e)"
  using tick_lastScaleUpTime [of c e s] by (auto simp: tickReadings_def)

lemma lastScaleDownFailedTrial_step:
  "lastScaleDownFailedTrial (fst (tick c e s)) = lastScaleDownFailedTrial s \<or>
   lastScaleDownFailedTrial (fst (tick c e s)) \<in> set (tickReadings e)"
  using tick_lastScaleDownFailedTrial [of c e s] by (auto simp: tickReadings_def)

lemma stateAfter_drop:
  assumes "i \<le> j"
  shows "stateAfter c es s j = stateAfter c (drop i es) (stateAfter c es s i) (j - i)"
proof -
  from assms have "take j es = take i es @ take (j - i) (drop i es)"
    by (metis le_add_diff_inverse take_add)
  then show ?thesis by (simp add: stateAfter_def)
qed

lemma scaled_up_no_scale_down:
  assumes "RetScaleUp True err \<in> set (snd (tick c e s))"
  shows "CallScaleDown \<notin> set (snd (tick c e s))"
proof
  assume dn: "CallScaleDown \<in> set (snd (tick c e s))"
  show False
  proof (cases rule: tick_cases [of e c s])
    case (abort ev)
    with dn show ?thesis by auto
  next
    case (stop nodes allScheduled pods0 evs1 present pods evs2 s1)
    from verifyPhase_events(1) [OF stop(2)] scaleUpPhase_events [OF stop(3)] stop(4) dn
    show ?thesis by auto
  next
    case (down nodes allScheduled pods0 evs1 present pods evs2 evs3 s2)
    from verifyPhase_events(1) [OF down(2)] scaleUpPhase_cases [of pods e nodes s] down(3)
      scaleDownPhase_events [OF down(4), of True err] down(5) assms
    show ?thesis by auto
  qed
qed

lemma listPhase_abort:
  assumes "(\<exists>err. nodeLister_List e = Inl err) \<or> nodeLister_List e = Inr [] \<or>
     (\<exists>nodes err. nodeLister_List e = Inr nodes \<and> CheckGroupsAndNodes e nodes = Some err) \<or>
     (\<exists>err. unschedulablePodLister_List e = Inl err) \<or>
     (\<exists>err. scheduledPodLister_List e = Inl err)"
  shows "snd (listPhase e) = None"
  using assms unfolding listPhase_def
  by (auto simp: Let_def split: sum.split option.split prod.split)

lemma sorted_reading_le_later:
  assumes srt: "sorted (clockReadings es)" and k: "k < length es"
    and r: "r \<in> set (tickReadings (es ! k))"
  shows "\<forall>r' \<in> set (clockReadings (drop (Suc k) es)). r \<le> r'"
proof -
  have "sorted (tickReadings (es ! k) @ clockReadings (drop (Suc k) es))"
    using sorted_clockReadings_drop [OF srt, of k] clockReadings_drop [OF k] by simp
  with r show ?thesis by (simp add: sorted_append)
qed

lemma no_scale_down_soon_after_scale_up:
  fixes es :: "('n, 'p, 'u) env list"
  assumes srt: "sorted (clockReadings es)" and ij: "i \<le> j" and j: "j < length es"
    and up: "RetScaleUp True None \<in> set (traceAt c es s i)"
    and dn: "CallScaleDown \<in> set (traceAt c es s j)"
  shows "scaleDownDelay c \<le> now (es ! j) AtDelayCheck - now (es ! i) AtScaleUp"
proof -
  let ?si = "stateAfter c es s i"
  let ?r = "now (es ! i) AtScaleUp"
  from ij j have i: "i < length es" by simp
  have "i \<noteq> j"
  proof
    assume "i = j"
    with up dn scaled_up_no_scale_down [of None c "es ! i" ?si]
    show False by (simp add: traceAt_def)
  qed
  with ij have sij: "Suc i \<le> j" by simp
  let ?s' = "stateAfter c es s (Suc i)"
  have s': "lastScaleUpTime ?s' = ?r"
    using up tick_lastScaleUpTime [of c "es ! i" ?si] stateAfter_Suc [OF i, of c s]
    by (auto simp: traceAt_def)
  have "?r \<in> set (tickReadings (es ! i))" by (simp add: tickReadings_def)
  from sorted_reading_le_later [OF srt i this] s'
  have le: "\<forall>r' \<in> set (clockReadings (drop (Suc i) es)). lastScaleUpTime ?s' \<le> r'" by simp
  have "j - Suc i \<le> length (drop (Suc i) es)" using j by simp
  from timer_invariant [of lastScaleUpTime c "drop (Suc i) es" ?s' "j - Suc i",
      OF lastScaleUpTime_step sorted_clockReadings_drop [OF srt] le this]
  have "lastScaleUpTime ?s' \<le> lastScaleUpTime (stateAfter c (drop (Suc i) es) ?s' (j - Suc i))"
    by simp
  with stateAfter_drop [OF sij, of c es s] s'
  have "?r \<le> lastScaleUpTime (stateAfter c es s j)" by simp
  moreover from dn tick_scale_down_iff [of c "es ! j" "stateAfter c es s j"]
  have "scaleDownDelay c \<le> now (es ! j) AtDelayCheck - lastScaleUpTime (stateAfter c es s j)"
    by (simp add: traceAt_def)
  ultimately show ?thesis by simp
qed

lemma clockMonotone_D:
  assumes "clockMonotone t1 t2 es"
  shows "sorted (clockReadings es)"
    and "\<forall>r \<in> set (clockReadings es). t1 \<le> r"
    and "\<forall>r \<in> set (clockReadings es). t2 \<le> r"
  using assms by (auto simp: clockMonotone_def)






text \<open>The definitions that the evaluation of the examples unfolds.\<close>

lemmas tick_defs = tick_def listPhase_def verifyPhase_def scaleUpPhase_def scaleDownPhase_def
  calculateUnneededOnly_def

lemmas example_defs = exampleConfig_def exampleEnv_def pendingEnv_def recheckEnv_def noFitEnv_def
  listFailEnv_def deleteFailsEnv_def checkFailsEnv_def startState_def initState_def

lemmas run_defs = traceAt_def stateAfter_def clockReadings_def tickReadings_def clockMonotone_def
  coolDownRun_def longRun_def

section \<open>The properties\<close>

subsection \<open>When the action pass runs\<close>

text \<open>
  Claim C1. In a tick that reaches the scale-down part (the classification pass, the call
  of \<^verbatim>\<open>FindUnneededNodes\<close>, runs), the action pass (the call of \<^verbatim>\<open>ScaleDown\<close>) runs if and
  only if the three conditions hold: the time since \<open>lastScaleUpTime\<close> is at least
  \<open>scaleDownDelay\<close>, the time since \<open>lastScaleDownFailedTrial\<close> is at least
  \<open>scaleDownTrialInterval\<close>, and no pod marked unschedulable was found schedulable in this
  tick. In no other tick does the action pass run, so when a condition fails no node is
  deleted and at most the classification pass runs. Consequently, while the clock does not
  go backwards: if a scale-up succeeded in tick \<open>i\<close>, then in no tick \<open>j\<close> from \<open>i\<close> on
  whose reading of the clock at the first condition is less than \<open>scaleDownDelay\<close> after
  the reading that tick \<open>i\<close> stored in \<open>lastScaleUpTime\<close> does the action pass run.
\<close>

theorem scale_down_action_guarded:
  fixes es :: "('n, 'p, 'u) env list"
  shows "(CallScaleDown \<in> set (snd (tick c e s)) \<longleftrightarrow>
            CallFindUnneededNodes \<in> set (snd (tick c e s)) \<and>
            scaleDownDelay c \<le> now e AtDelayCheck - lastScaleUpTime s \<and>
            scaleDownTrialInterval c \<le> now e AtTrialCheck - lastScaleDownFailedTrial s \<and>
            LogSchedulablePodsPresent \<notin> set (snd (tick c e s))) \<and>
         (sorted (clockReadings es) \<and> i \<le> j \<and> j < length es \<and>
            RetScaleUp True None \<in> set (traceAt c es s0 i) \<and>
            now (es ! j) AtDelayCheck - now (es ! i) AtScaleUp < scaleDownDelay c
          \<longrightarrow> CallScaleDown \<notin> set (traceAt c es s0 j))"
  using tick_scale_down_iff [of c e s] no_scale_down_soon_after_scale_up [of es i j c s0]
  by (meson not_le)

theorem scale_down_action_guarded_witness:
  "sorted (clockReadings coolDownRun) \<and> (0::nat) \<le> 1 \<and> 1 < length coolDownRun \<and>
   RetScaleUp True None \<in> set (traceAt exampleConfig coolDownRun startState 0) \<and>
   now (coolDownRun ! 1) AtDelayCheck - now (coolDownRun ! 0) AtScaleUp
     < scaleDownDelay exampleConfig \<and>
   CallScaleDown \<notin> set (traceAt exampleConfig coolDownRun startState 1) \<and>
   CallScaleDown \<in> set (snd (tick exampleConfig (exampleEnv 1000) startState))"
proof -
  have h: "sorted (clockReadings coolDownRun) \<and> (0::nat) \<le> 1 \<and> 1 < length coolDownRun \<and>
     RetScaleUp True None \<in> set (traceAt exampleConfig coolDownRun startState 0) \<and>
     now (coolDownRun ! 1) AtDelayCheck - now (coolDownRun ! 0) AtScaleUp
       < scaleDownDelay exampleConfig"
    by (simp add: run_defs tick_defs example_defs)
  have g: "CallFindUnneededNodes \<in> set (snd (tick exampleConfig (exampleEnv 1000) startState)) \<and>
     scaleDownDelay exampleConfig \<le> now (exampleEnv 1000) AtDelayCheck - lastScaleUpTime startState \<and>
     scaleDownTrialInterval exampleConfig
       \<le> now (exampleEnv 1000) AtTrialCheck - lastScaleDownFailedTrial startState \<and>
     LogSchedulablePodsPresent \<notin> set (snd (tick exampleConfig (exampleEnv 1000) startState))"
    by (simp add: tick_defs example_defs)
  from scale_down_action_guarded [of exampleConfig "exampleEnv 1000" startState coolDownRun 0 1 startState]
    h g
  show ?thesis by blast
qed

subsection \<open>A successful scale-up ends the tick\<close>

text \<open>
  Claim C2. In a tick in which \<^verbatim>\<open>ScaleUp\<close> returns \<^verbatim>\<open>scaledUp = true\<close>, neither the
  classification pass nor the action pass of scale-down runs. When the call returned no
  error with it (the successful scale-up), \<open>lastScaleUpTime\<close> is set to the current time,
  nothing else of the state changes, and the tick ends right after the call.
\<close>

theorem successful_scale_up_ends_tick:
  assumes "RetScaleUp True err \<in> set (snd (tick c e s))"
  shows "CallCleanUp \<notin> set (snd (tick c e s)) \<and>
         CallFindUnneededNodes \<notin> set (snd (tick c e s)) \<and>
         CallScaleDown \<notin> set (snd (tick c e s)) \<and>
         (err = None \<longrightarrow> fst (tick c e s) = s\<lparr>lastScaleUpTime := now e AtScaleUp\<rparr> \<and>
            last (snd (tick c e s)) = RetScaleUp True None)"
proof (cases rule: tick_cases [of e c s])
  case (abort ev)
  with assms show ?thesis by auto
next
  case (stop nodes allScheduled pods0 evs1 present pods evs2 s1)
  from verifyPhase_events(1) [OF stop(2)] scaleUpPhase_cases [of pods e nodes s] stop(3,4) assms
  show ?thesis by auto
next
  case (down nodes allScheduled pods0 evs1 present pods evs2 evs3 s2)
  from verifyPhase_events(1) [OF down(2)] scaleUpPhase_cases [of pods e nodes s] down(3)
    scaleDownPhase_events [OF down(4), of True err] down(5) assms
  show ?thesis by auto
qed

theorem successful_scale_up_ends_tick_witness:
  "RetScaleUp True None \<in> set (snd (tick exampleConfig (pendingEnv 1000) startState)) \<and>
   lastScaleUpTime (fst (tick exampleConfig (pendingEnv 1000) startState)) = 1000 \<and>
   CallFindUnneededNodes \<notin> set (snd (tick exampleConfig (pendingEnv 1000) startState)) \<and>
   CallScaleDown \<notin> set (snd (tick exampleConfig (pendingEnv 1000) startState))"
proof -
  have h: "RetScaleUp True None \<in> set (snd (tick exampleConfig (pendingEnv 1000) startState))"
    by (simp add: tick_defs example_defs)
  have n: "now (pendingEnv 1000) AtScaleUp = 1000" by (simp add: example_defs)
  from successful_scale_up_ends_tick [OF h] h n show ?thesis by simp
qed

subsection \<open>An error value of the scale-down call\<close>

text \<open>
  Claim C3. The claim is that whenever the action pass runs and does not succeed, also
  when \<^verbatim>\<open>ScaleDown\<close> returns an error value, \<open>lastScaleDownFailedTrial\<close> is set to the
  current time. The loop sets it only in the branch without error value, for the results
  \<^verbatim>\<open>ScaleDownError\<close> and \<^verbatim>\<open>ScaleDownNoNodeDeleted\<close>. Here the action pass runs at time 1000,
  \<^verbatim>\<open>ScaleDown\<close> returns \<^verbatim>\<open>ScaleDownError\<close> with an error value, the loop writes the message
  of the failure, and \<open>lastScaleDownFailedTrial\<close> keeps its old value 0.
\<close>

theorem scale_down_error_value_keeps_failed_trial:
  "tick exampleConfig (deleteFailsEnv 1000) startState =
     (startState, [CallResetPodScheduledCondition, CallFilterOutSchedulable,
        LogNoUnschedulablePods, CallCleanUp, CallFindUnneededNodes, CallScaleDown,
        RetScaleDown ScaleDownError (Some (Err ''delete failed'')), LogFailedToScaleDown]) \<and>
   lastScaleDownFailedTrial (fst (tick exampleConfig (deleteFailsEnv 1000) startState)) = 0 \<and>
   now (deleteFailsEnv 1000) AtFailedTrial = 1000"
  by (simp add: tick_defs example_defs)

subsection \<open>Scale-down after a scale-up that changed nothing\<close>

text \<open>
  Claim C4, as amended. In a tick that passes the listing, reset and filter steps: the
  scale-up planner is called exactly when pods that need help remain. The scale-down
  planner (classification, and with it the action pass) is called exactly when scale-down
  is enabled and either no such pod remains or \<^verbatim>\<open>ScaleUp\<close> returned no error and
  \<^verbatim>\<open>scaledUp = false\<close>. The action pass never runs without the classification pass.
\<close>

theorem scale_down_follows_unsuccessful_scale_up:
  assumes l: "listPhase e = (evs0, Some (nodes, allScheduled, pods0))"
    and v: "verifyPhase c e nodes allScheduled pods0 = (evs1, present, pods)"
  shows "(CallScaleUp \<in> set (snd (tick c e s)) \<longleftrightarrow> pods \<noteq> []) \<and>
         (CallFindUnneededNodes \<in> set (snd (tick c e s)) \<longleftrightarrow>
            scaleDownEnabled c \<and> (pods = [] \<or> ScaleUp e pods nodes = (False, None))) \<and>
         (CallScaleDown \<in> set (snd (tick c e s)) \<longrightarrow>
            CallFindUnneededNodes \<in> set (snd (tick c e s)))"
proof (cases rule: tick_cases [of e c s])
  case (abort ev)
  with l show ?thesis by simp
next
  case (stop nodes' allScheduled' pods0' evs1' present' pods' evs2 s1)
  with l v have u: "scaleUpPhase e nodes pods s = (evs2, s1, False)"
    and t: "tick c e s = (s1, CallResetPodScheduledCondition # evs1 @ evs2)" by simp_all
  from verifyPhase_events(1) [OF v] scaleUpPhase_cases [of pods e nodes s] u t
  show ?thesis by auto
next
  case (down nodes' allScheduled' pods0' evs1' present' pods' evs2 evs3 s2)
  with l v have u: "scaleUpPhase e nodes pods s = (evs2, s, True)"
    and d: "scaleDownPhase c e nodes allScheduled present s = (evs3, s2)"
    and t: "tick c e s = (s2, CallResetPodScheduledCondition # evs1 @ evs2 @ evs3)" by simp_all
  from verifyPhase_events(1) [OF v] scaleUpPhase_cases [of pods e nodes s] u
    scaleDownPhase_events [OF d] t
  show ?thesis by auto
qed

theorem scale_down_follows_unsuccessful_scale_up_witness:
  "listPhase (noFitEnv 1000) = ([CallResetPodScheduledCondition], Some ([1, 2], [10, 11], [8])) \<and>
   verifyPhase exampleConfig (noFitEnv 1000) [1, 2] [10, 11] [8] =
     ([CallFilterOutSchedulable], False, [8]) \<and>
   CallScaleUp \<in> set (snd (tick exampleConfig (noFitEnv 1000) startState)) \<and>
   CallFindUnneededNodes \<in> set (snd (tick exampleConfig (noFitEnv 1000) startState))"
proof -
  have l: "listPhase (noFitEnv 1000) =
      ([CallResetPodScheduledCondition], Some ([1, 2], [10, 11], [8]))"
    by (simp add: tick_defs example_defs)
  have v: "verifyPhase exampleConfig (noFitEnv 1000) [1, 2] [10, 11] [8] =
      ([CallFilterOutSchedulable], False, [8])"
    by (simp add: tick_defs example_defs)
  have u: "scaleDownEnabled exampleConfig \<and> ScaleUp (noFitEnv 1000) [8] [1, 2] = (False, None)"
    by (simp add: example_defs)
  from scale_down_follows_unsuccessful_scale_up [OF l v, of startState] l v u
  show ?thesis by simp
qed

text \<open>
  Claim C4 as it was stated, that the scale-down planner is called only when no pod that
  needs help remains, fails: pod 8 remains, \<^verbatim>\<open>ScaleUp\<close> returns \<^verbatim>\<open>false\<close> without error, and
  the same tick goes on to the classification pass and to \<^verbatim>\<open>ScaleDown\<close>.
\<close>

theorem scale_down_with_pending_pods_counterexample:
  "snd (snd (verifyPhase exampleConfig (noFitEnv 1000) [1, 2] [10, 11] [8])) = [8] \<and>
   tick exampleConfig (noFitEnv 1000) startState =
     (startState, [CallResetPodScheduledCondition, CallFilterOutSchedulable,
        CallScaleUp, RetScaleUp False None, CallCleanUp, CallFindUnneededNodes, CallScaleDown,
        RetScaleDown ScaleDownNodeDeleted None])"
  by (simp add: tick_defs example_defs)

subsection \<open>Pods found schedulable suppress the action pass\<close>

text \<open>
  Claim C5. In a tick that passes the listing steps, with a filter that only removes pods:
  \<open>schedulablePodsPresent\<close> is true exactly when the check is switched on and the filter
  removed at least one pod; the loop then reports it, and the action pass of scale-down
  does not run in that tick.
\<close>

theorem schedulable_pods_suppress_scale_down:
  assumes l: "listPhase e = (evs0, Some (nodes, allScheduled, pods0))"
    and sub: "subseq (FilterOutSchedulable e pods0 nodes allScheduled) pods0"
  shows "(fst (snd (verifyPhase c e nodes allScheduled pods0)) \<longleftrightarrow>
            verifyUnschedulablePods c \<and> FilterOutSchedulable e pods0 nodes allScheduled \<noteq> pods0) \<and>
         (LogSchedulablePodsPresent \<in> set (snd (tick c e s)) \<longleftrightarrow>
            verifyUnschedulablePods c \<and> FilterOutSchedulable e pods0 nodes allScheduled \<noteq> pods0) \<and>
         (verifyUnschedulablePods c \<and> FilterOutSchedulable e pods0 nodes allScheduled \<noteq> pods0
            \<longrightarrow> CallScaleDown \<notin> set (snd (tick c e s)))"
proof -
  let ?new = "FilterOutSchedulable e pods0 nodes allScheduled"
  have len: "length ?new \<noteq> length pods0 \<longleftrightarrow> ?new \<noteq> pods0"
    using sub subseq_same_length by auto
  have flag: "fst (snd (verifyPhase c e nodes allScheduled pods0)) \<longleftrightarrow>
            verifyUnschedulablePods c \<and> ?new \<noteq> pods0"
    using len by (simp add: verifyPhase_eq)
  have log: "LogSchedulablePodsPresent \<in> set (snd (tick c e s)) \<longleftrightarrow>
            fst (snd (verifyPhase c e nodes allScheduled pods0))"
  proof (cases rule: tick_cases [of e c s])
    case (abort ev)
    with l show ?thesis by simp
  next
    case (stop nodes' allScheduled' pods0' evs1 present pods evs2 s1)
    with l have v: "verifyPhase c e nodes allScheduled pods0 = (evs1, present, pods)" by simp
    from verifyPhase_events [OF v] scaleUpPhase_events [OF stop(3)] stop(4) v
    show ?thesis by auto
  next
    case (down nodes' allScheduled' pods0' evs1 present pods evs2 evs3 s2)
    with l have v: "verifyPhase c e nodes allScheduled pods0 = (evs1, present, pods)" by simp
    from verifyPhase_events [OF v] scaleUpPhase_events [OF down(3)]
      scaleDownPhase_events [OF down(4)] down(5) v
    show ?thesis by auto
  qed
  from tick_scale_down_iff [of c e s] flag log show ?thesis by blast
qed

theorem schedulable_pods_suppress_scale_down_witness:
  "listPhase (recheckEnv 1000) = ([CallResetPodScheduledCondition], Some ([1, 2], [10, 11], [7])) \<and>
   subseq (FilterOutSchedulable (recheckEnv 1000) [7] [1, 2] [10, 11]) [7] \<and>
   FilterOutSchedulable (recheckEnv 1000) [7] [1, 2] [10, 11] \<noteq> [7] \<and>
   fst (snd (verifyPhase exampleConfig (recheckEnv 1000) [1, 2] [10, 11] [7])) \<and>
   LogSchedulablePodsPresent \<in> set (snd (tick exampleConfig (recheckEnv 1000) startState)) \<and>
   CallScaleDown \<notin> set (snd (tick exampleConfig (recheckEnv 1000) startState))"
proof -
  have l: "listPhase (recheckEnv 1000) =
      ([CallResetPodScheduledCondition], Some ([1, 2], [10, 11], [7]))"
    by (simp add: tick_defs example_defs)
  have f: "FilterOutSchedulable (recheckEnv 1000) [7] [1, 2] [10, 11] = []"
    by (simp add: example_defs)
  have sub: "subseq (FilterOutSchedulable (recheckEnv 1000) [7] [1, 2] [10, 11]) [7]"
    by (simp add: example_defs)
  have v: "verifyUnschedulablePods exampleConfig" by (simp add: example_defs)
  from schedulable_pods_suppress_scale_down [OF l sub, of exampleConfig startState] l sub f v show ?thesis by simp
qed

subsection \<open>A failed listing ends the tick\<close>

text \<open>
  Claim C6. If listing the nodes fails, or the list of nodes is empty, or the group check
  fails, or listing the unschedulable or the scheduled pods fails, the tick ends at once:
  the state kept across ticks (both timers, both maps, the tracker) is unchanged, the tick
  did nothing but write one of the five messages, and neither \<^verbatim>\<open>ScaleUp\<close> nor \<^verbatim>\<open>ScaleDown\<close>,
  the only ways to the provider, is called.
\<close>

theorem listing_failure_aborts_tick:
  assumes "(\<exists>err. nodeLister_List e = Inl err) \<or> nodeLister_List e = Inr [] \<or>
     (\<exists>nodes err. nodeLister_List e = Inr nodes \<and> CheckGroupsAndNodes e nodes = Some err) \<or>
     (\<exists>err. unschedulablePodLister_List e = Inl err) \<or>
     (\<exists>err. scheduledPodLister_List e = Inl err)"
  shows "fst (tick c e s) = s \<and>
         set (snd (tick c e s)) \<subseteq> {LogFailedToListNodes, LogNoNodes, WarnClusterNotReady,
             LogFailedToListUnscheduled, LogFailedToListScheduled} \<and>
         CallScaleUp \<notin> set (snd (tick c e s)) \<and> CallScaleDown \<notin> set (snd (tick c e s))"
proof -
  from assms have n: "snd (listPhase e) = None" by (rule listPhase_abort)
  show ?thesis
  proof (cases rule: tick_cases [of e c s])
    case (abort ev)
    then show ?thesis by auto
  next
    case (stop nodes allScheduled pods0 evs1 present pods evs2 s1)
    with n show ?thesis by simp
  next
    case (down nodes allScheduled pods0 evs1 present pods evs2 evs3 s2)
    with n show ?thesis by simp
  qed
qed

theorem listing_failure_aborts_tick_witness:
  "(\<exists>err. nodeLister_List (listFailEnv 1000) = Inl err) \<and>
   fst (tick exampleConfig (listFailEnv 1000) startState) = startState \<and>
   CallScaleUp \<notin> set (snd (tick exampleConfig (listFailEnv 1000) startState)) \<and>
   CallScaleDown \<notin> set (snd (tick exampleConfig (listFailEnv 1000) startState))"
proof -
  have h: "\<exists>err. nodeLister_List (listFailEnv 1000) = Inl err" by (simp add: example_defs)
  then have "(\<exists>err. nodeLister_List (listFailEnv 1000) = Inl err) \<or>
     nodeLister_List (listFailEnv 1000) = Inr [] \<or>
     (\<exists>nodes err. nodeLister_List (listFailEnv 1000) = Inr nodes \<and>
        CheckGroupsAndNodes (listFailEnv 1000) nodes = Some err) \<or>
     (\<exists>err. unschedulablePodLister_List (listFailEnv 1000) = Inl err) \<or>
     (\<exists>err. scheduledPodLister_List (listFailEnv 1000) = Inl err)" by blast
  from listing_failure_aborts_tick [OF this, of exampleConfig startState] h show ?thesis by blast
qed

subsection \<open>A node of no known group\<close>




subsection \<open>The time of the last scale-up never decreases\<close>

text \<open>
  Claim C8. While the clock does not go backwards, \<open>lastScaleUpTime\<close> never decreases
  over the life of the loop: for \<open>i \<le> j\<close> its value after \<open>i\<close> ticks is at most its value
  after \<open>j\<close> ticks (after no tick it is the value of start-up).
\<close>

theorem lastScaleUpTime_monotone:
  fixes es :: "('n, 'p, 'u) env list"
  assumes "clockMonotone t1 t2 es" and "i \<le> j" and "j \<le> length es"
  shows "lastScaleUpTime (stateAfter c es (initState t1 t2 u) i) \<le>
         lastScaleUpTime (stateAfter c es (initState t1 t2 u) j)"
proof -
  have "\<forall>r \<in> set (clockReadings es). lastScaleUpTime (initState t1 t2 u) \<le> r"
    using clockMonotone_D(2) [OF assms(1)] by (simp add: initState_def)
  from timer_mono [of lastScaleUpTime c es "initState t1 t2 u" i j,
      OF lastScaleUpTime_step clockMonotone_D(1) [OF assms(1)] this assms(2,3)]
  show ?thesis .
qed

theorem lastScaleUpTime_monotone_witness:
  "clockMonotone 0 0 longRun \<and> (1::nat) \<le> 3 \<and> 3 \<le> length longRun \<and>
   lastScaleUpTime (stateAfter exampleConfig longRun (initState 0 0 ()) 1) = 1000 \<and>
   lastScaleUpTime (stateAfter exampleConfig longRun (initState 0 0 ()) 3) = 2000 \<and>
   lastScaleUpTime (stateAfter exampleConfig longRun (initState 0 0 ()) 1) \<le>
   lastScaleUpTime (stateAfter exampleConfig longRun (initState 0 0 ()) 3)"
proof -
  have m: "clockMonotone 0 0 longRun" by (simp add: run_defs example_defs)
  have i: "(1::nat) \<le> 3" by simp
  have j: "3 \<le> length longRun" by (simp add: run_defs)
  have v1: "lastScaleUpTime (stateAfter exampleConfig longRun (initState 0 0 ()) 1) = 1000"
    by (simp add: run_defs tick_defs example_defs)
  have v3: "lastScaleUpTime (stateAfter exampleConfig longRun (initState 0 0 ()) 3) = 2000"
    by (simp add: run_defs tick_defs example_defs)
  from lastScaleUpTime_monotone [OF m i j, of exampleConfig "()"] m i j v1 v3 show ?thesis by blast
qed

subsection \<open>The check switched off\<close>

text \<open>
  Claim C9. If \<open>verifyUnschedulablePods\<close> is false, the filter is skipped in every tick: the
  tick does not depend on what the filter would return, the pods that need help pass
  unchanged, the filter is not called, \<open>schedulablePodsPresent\<close> is false and is never
  reported, and the action pass depends on the two conditions on the timers alone.
\<close>

theorem verify_flag_off_skips_filter:
  assumes nv: "\<not> verifyUnschedulablePods c"
  shows "tick c (e\<lparr>FilterOutSchedulable := f\<rparr>) s = tick c e s \<and>
         verifyPhase c e nodes allScheduled pods0 = ([], False, pods0) \<and>
         CallFilterOutSchedulable \<notin> set (snd (tick c e s)) \<and>
         LogSchedulablePodsPresent \<notin> set (snd (tick c e s)) \<and>
         (CallScaleDown \<in> set (snd (tick c e s)) \<longleftrightarrow>
            CallFindUnneededNodes \<in> set (snd (tick c e s)) \<and>
            scaleDownDelay c \<le> now e AtDelayCheck - lastScaleUpTime s \<and>
            scaleDownTrialInterval c \<le> now e AtTrialCheck - lastScaleDownFailedTrial s)"
proof -
  have v: "\<And>nodes allScheduled pods0. verifyPhase c e nodes allScheduled pods0 = ([], False, pods0)"
    using nv by (simp add: verifyPhase_eq)
  have v': "\<And>nodes allScheduled pods0.
      verifyPhase c (e\<lparr>FilterOutSchedulable := f\<rparr>) nodes allScheduled pods0 = ([], False, pods0)"
    using nv by (simp add: verifyPhase_eq)
  have l: "listPhase (e\<lparr>FilterOutSchedulable := f\<rparr>) = listPhase e"
    by (simp add: listPhase_def cong: sum.case_cong option.case_cong if_cong)
  have u: "\<And>nodes pods. scaleUpPhase (e\<lparr>FilterOutSchedulable := f\<rparr>) nodes pods s =
      scaleUpPhase e nodes pods s"
    by (simp add: scaleUpPhase_def split_beta cong: option.case_cong if_cong)
  have d: "\<And>nodes allScheduled present s.
      scaleDownPhase c (e\<lparr>FilterOutSchedulable := f\<rparr>) nodes allScheduled present s =
      scaleDownPhase c e nodes allScheduled present s"
    by (simp add: scaleDownPhase_def calculateUnneededOnly_def Let_def split_beta
          cong: option.case_cong if_cong)
  have eq: "tick c (e\<lparr>FilterOutSchedulable := f\<rparr>) s = tick c e s"
    unfolding tick_def l v v' u d ..
  have ev: "CallFilterOutSchedulable \<notin> set (snd (tick c e s)) \<and>
         LogSchedulablePodsPresent \<notin> set (snd (tick c e s))"
  proof (cases rule: tick_cases [of e c s])
    case (abort ev)
    then show ?thesis by auto
  next
    case (stop nodes allScheduled pods0 evs1 present pods evs2 s1)
    from stop(2) v have "evs1 = []" by simp
    with scaleUpPhase_events [OF stop(3)] stop(4) show ?thesis by auto
  next
    case (down nodes allScheduled pods0 evs1 present pods evs2 evs3 s2)
    from down(2) v have "evs1 = []" by simp
    with scaleUpPhase_events [OF down(3)] scaleDownPhase_events [OF down(4)] down(5)
    show ?thesis by auto
  qed
  from eq v ev tick_scale_down_iff [of c e s] show ?thesis by blast
qed

theorem verify_flag_off_skips_filter_witness:
  "\<not> verifyUnschedulablePods (exampleConfig\<lparr>verifyUnschedulablePods := False\<rparr>) \<and>
   tick (exampleConfig\<lparr>verifyUnschedulablePods := False\<rparr>)
     ((recheckEnv 1000)\<lparr>FilterOutSchedulable := (\<lambda>pods nodes scheduled. [])\<rparr>) startState =
   tick (exampleConfig\<lparr>verifyUnschedulablePods := False\<rparr>) (recheckEnv 1000) startState \<and>
   CallFilterOutSchedulable \<notin>
     set (snd (tick (exampleConfig\<lparr>verifyUnschedulablePods := False\<rparr>) (recheckEnv 1000) startState)) \<and>
   LogSchedulablePodsPresent \<notin>
     set (snd (tick (exampleConfig\<lparr>verifyUnschedulablePods := False\<rparr>) (recheckEnv 1000) startState))"
proof -
  have h: "\<not> verifyUnschedulablePods (exampleConfig\<lparr>verifyUnschedulablePods := False\<rparr>)"
    by simp
  from verify_flag_off_skips_filter [OF h, where e = "recheckEnv 1000" and f = "\<lambda>pods nodes scheduled. []"
      and s = startState] h
  show ?thesis by blast
qed

subsection \<open>No scale-down right after start-up\<close>

text \<open>
  Claim C10. Both timers start at the time of start-up. While the clock does not go
  backwards, every tick in which the action pass runs reads the clock, at the first
  condition, no earlier than start-up plus \<open>scaleDownDelay\<close> and, at the second, no earlier
  than start-up plus \<open>scaleDownTrialInterval\<close>, whether or not a scale-up or a failed
  trial has happened.
\<close>

theorem no_scale_down_before_startup_delays:
  fixes es :: "('n, 'p, 'u) env list"
  shows "lastScaleUpTime (initState t1 t2 u) = t1 \<and>
         lastScaleDownFailedTrial (initState t1 t2 u) = t2 \<and>
         (clockMonotone t1 t2 es \<and> k < length es \<and>
            CallScaleDown \<in> set (traceAt c es (initState t1 t2 u) k)
          \<longrightarrow> t1 + scaleDownDelay c \<le> now (es ! k) AtDelayCheck \<and>
              t2 + scaleDownTrialInterval c \<le> now (es ! k) AtTrialCheck)"
proof -
  let ?s0 = "initState t1 t2 u :: 'u state"
  have init: "lastScaleUpTime ?s0 = t1" "lastScaleDownFailedTrial ?s0 = t2"
    by (simp_all add: initState_def)
  have "t1 + scaleDownDelay c \<le> now (es ! k) AtDelayCheck \<and>
        t2 + scaleDownTrialInterval c \<le> now (es ! k) AtTrialCheck"
    if mono: "clockMonotone t1 t2 es" and k: "k < length es"
      and dn: "CallScaleDown \<in> set (traceAt c es ?s0 k)"
  proof -
    let ?sk = "stateAfter c es ?s0 k"
    from k have k': "k \<le> length es" by simp
    have a: "\<forall>r \<in> set (clockReadings es). lastScaleUpTime ?s0 \<le> r"
      using clockMonotone_D(2) [OF mono] init by simp
    have b: "\<forall>r \<in> set (clockReadings es). lastScaleDownFailedTrial ?s0 \<le> r"
      using clockMonotone_D(3) [OF mono] init by simp
    from timer_invariant [of lastScaleUpTime c es ?s0 k,
        OF lastScaleUpTime_step clockMonotone_D(1) [OF mono] a k'] init
    have up: "t1 \<le> lastScaleUpTime ?sk" by simp
    from timer_invariant [of lastScaleDownFailedTrial c es ?s0 k,
        OF lastScaleDownFailedTrial_step clockMonotone_D(1) [OF mono] b k'] init
    have ft: "t2 \<le> lastScaleDownFailedTrial ?sk" by simp
    from dn tick_scale_down_iff [of c "es ! k" ?sk]
    have "scaleDownDelay c \<le> now (es ! k) AtDelayCheck - lastScaleUpTime ?sk"
      and "scaleDownTrialInterval c \<le> now (es ! k) AtTrialCheck - lastScaleDownFailedTrial ?sk"
      by (simp_all add: traceAt_def)
    with up ft show ?thesis by simp
  qed
  with init show ?thesis by blast
qed

theorem no_scale_down_before_startup_delays_witness:
  "clockMonotone 0 0 [exampleEnv 1000] \<and> (0::nat) < length [exampleEnv 1000] \<and>
   CallScaleDown \<in> set (traceAt exampleConfig [exampleEnv 1000] (initState 0 0 ()) 0) \<and>
   0 + scaleDownDelay exampleConfig \<le> now ([exampleEnv 1000] ! 0) AtDelayCheck \<and>
   0 + scaleDownTrialInterval exampleConfig \<le> now ([exampleEnv 1000] ! 0) AtTrialCheck"
proof -
  have h: "clockMonotone 0 0 [exampleEnv 1000] \<and> (0::nat) < length [exampleEnv 1000] \<and>
     CallScaleDown \<in> set (traceAt exampleConfig [exampleEnv 1000] (initState 0 0 ()) 0)"
    by (simp add: run_defs tick_defs example_defs)
  from no_scale_down_before_startup_delays [of 0 0 "()" "[exampleEnv 1000]" 0 exampleConfig] h show ?thesis by blast
qed

end
